theory Spec2Isabelle
  imports Main "HOL-Library.Word"
begin

section \<open>JavaScript strings\<close>

text \<open>
  A JavaScript string is a sequence of 16-bit code units. The hook
  \<^verbatim>\<open>src/hooks/useChat.ts\<close> only ever compares code units and cuts strings
  at positions, so a string is a list of 16-bit words. \<open>js\<close> turns an ASCII
  literal of the theory into such a string.
\<close>

type_synonym unit16 = "16 word"
type_synonym jstring = "unit16 list"

definition js :: "string \<Rightarrow> jstring" where
  "js s = map of_char s"

definition NL :: unit16 where "NL = 0x0A"
definition CR :: unit16 where "CR = 0x0D"

text \<open>\<^verbatim>\<open>s.startsWith(p)\<close> and \<^verbatim>\<open>s.endsWith(p)\<close>.\<close>

fun startsWith :: "jstring \<Rightarrow> jstring \<Rightarrow> bool" where
  "startsWith s [] = True"
| "startsWith [] (p # ps) = False"
| "startsWith (c # cs) (p # ps) = (c = p \<and> startsWith cs ps)"

definition endsWith :: "jstring \<Rightarrow> jstring \<Rightarrow> bool" where
  "endsWith s p = startsWith (rev s) (rev p)"

text \<open>
  \<^verbatim>\<open>s.trim()\<close> removes the code units of WhiteSpace and LineTerminator
  (ECMA-262) from both ends.
\<close>

definition js_whitespace :: "unit16 \<Rightarrow> bool" where
  "js_whitespace c =
     (c = 0x09 \<or> c = 0x0A \<or> c = 0x0B \<or> c = 0x0C \<or> c = 0x0D \<or> c = 0x20 \<or> c = 0xA0
      \<or> c = 0x1680 \<or> (0x2000 \<le> c \<and> c \<le> 0x200A) \<or> c = 0x2028 \<or> c = 0x2029
      \<or> c = 0x202F \<or> c = 0x205F \<or> c = 0x3000 \<or> c = 0xFEFF)"

definition trim :: "jstring \<Rightarrow> jstring" where
  "trim s = rev (dropWhile js_whitespace (rev (dropWhile js_whitespace s)))"

text \<open>\<^verbatim>\<open>s.indexOf("\n")\<close>, with \<open>None\<close> for \<^verbatim>\<open>-1\<close>.\<close>

fun indexOf_newline :: "jstring \<Rightarrow> nat option" where
  "indexOf_newline [] = None"
| "indexOf_newline (c # cs) = (if c = NL then Some 0 else map_option Suc (indexOf_newline cs))"

text \<open>\<^verbatim>\<open>s.split("\n")\<close>: the pieces between the newlines, one more than there are newlines.\<close>

fun split_newline :: "jstring \<Rightarrow> jstring list" where
  "split_newline [] = [[]]"
| "split_newline (c # cs) =
     (if c = NL then [] # split_newline cs
      else (case split_newline cs of
              [] \<Rightarrow> [[c]]
            | piece # pieces \<Rightarrow> (c # piece) # pieces))"

section \<open>JSON.parse\<close>

text \<open>
  \<^verbatim>\<open>JSON.parse\<close> is a built-in of the platform. It is modelled by the JSON
  grammar of ECMA-404: a lexer for the six structural characters, string
  literals with their escapes, numbers and the three keywords, followed by a
  pushdown recogniser that builds the value. A number keeps its lexeme: the
  hook never computes with one. An object keeps its members in source order;
  a later member of the same name overrides an earlier one when read.
  \<open>None\<close> stands for the \<^verbatim>\<open>SyntaxError\<close> that \<^verbatim>\<open>JSON.parse\<close> throws.
\<close>

datatype json =
    JNull
  | JBool bool
  | JNumber jstring
  | JString jstring
  | JArray "json list"
  | JObject "(jstring \<times> json) list"

datatype token = LBracket | RBracket | LBrace | RBrace | Colon | Comma | Scalar json

definition json_whitespace :: "unit16 \<Rightarrow> bool" where
  "json_whitespace c = (c = 0x09 \<or> c = 0x0A \<or> c = 0x0D \<or> c = 0x20)"

definition is_digit :: "unit16 \<Rightarrow> bool" where
  "is_digit c = (0x30 \<le> c \<and> c \<le> 0x39)"

definition hex_value :: "unit16 \<Rightarrow> unit16 option" where
  "hex_value c =
     (if 0x30 \<le> c \<and> c \<le> 0x39 then Some (c - 0x30)
      else if 0x41 \<le> c \<and> c \<le> 0x46 then Some (c - 0x37)
      else if 0x61 \<le> c \<and> c \<le> 0x66 then Some (c - 0x57)
      else None)"

definition hex4 :: "unit16 \<Rightarrow> unit16 \<Rightarrow> unit16 \<Rightarrow> unit16 \<Rightarrow> unit16 option" where
  "hex4 a b c d =
     (case (hex_value a, hex_value b, hex_value c, hex_value d) of
        (Some x, Some y, Some z, Some w) \<Rightarrow> Some (((x * 16 + y) * 16 + z) * 16 + w)
      | _ \<Rightarrow> None)"

text \<open>The escape after a backslash, other than \<^verbatim>\<open>\u\<close>.\<close>

definition simple_escape :: "unit16 \<Rightarrow> unit16 option" where
  "simple_escape e =
     (if e = 0x22 then Some 0x22
      else if e = 0x5C then Some 0x5C
      else if e = 0x2F then Some 0x2F
      else if e = 0x62 then Some 0x08
      else if e = 0x66 then Some 0x0C
      else if e = 0x6E then Some 0x0A
      else if e = 0x72 then Some 0x0D
      else if e = 0x74 then Some 0x09
      else None)"

text \<open>
  The body of a string literal, read after its opening quote: the decoded
  string and the input after the closing quote.
\<close>

fun lex_string :: "jstring \<Rightarrow> jstring \<Rightarrow> (jstring \<times> jstring) option" where
  "lex_string acc [] = None"
| "lex_string acc (c # cs) =
     (if c = 0x22 then Some (acc, cs)
      else if c = 0x5C then
        (case cs of
           [] \<Rightarrow> None
         | e # es \<Rightarrow>
             if e = 0x75 then
               (case es of
                  h1 # h2 # h3 # h4 # rest \<Rightarrow>
                    (case hex4 h1 h2 h3 h4 of
                       None \<Rightarrow> None
                     | Some u \<Rightarrow> lex_string (acc @ [u]) rest)
                | _ \<Rightarrow> None)
             else
               (case simple_escape e of
                  None \<Rightarrow> None
                | Some u \<Rightarrow> lex_string (acc @ [u]) es))
      else if c < 0x20 then None
      else lex_string (acc @ [c]) cs)"

text \<open>
  A number: an optional minus, \<^verbatim>\<open>0\<close> or a digit sequence without leading
  zero, an optional fraction and an optional exponent, each with at least one
  digit. The result is the lexeme and the input after it.
\<close>

definition lex_digits :: "jstring \<Rightarrow> (jstring \<times> jstring) option" where
  "lex_digits s =
     (if takeWhile is_digit s = [] then None
      else Some (takeWhile is_digit s, dropWhile is_digit s))"

definition lex_int :: "jstring \<Rightarrow> (jstring \<times> jstring) option" where
  "lex_int s =
     (case s of
        [] \<Rightarrow> None
      | d # ds \<Rightarrow> if d = 0x30 then Some ([d], ds) else lex_digits s)"

definition lex_frac :: "jstring \<Rightarrow> (jstring \<times> jstring) option" where
  "lex_frac s =
     (case s of
        [] \<Rightarrow> Some ([], s)
      | p # ds \<Rightarrow>
          if p = 0x2E then map_option (\<lambda>(f, r). (p # f, r)) (lex_digits ds)
          else Some ([], s))"

definition lex_exp :: "jstring \<Rightarrow> (jstring \<times> jstring) option" where
  "lex_exp s =
     (case s of
        [] \<Rightarrow> Some ([], s)
      | e # ds \<Rightarrow>
          if e = 0x65 \<or> e = 0x45 then
            (case ds of
               [] \<Rightarrow> None
             | g # gs \<Rightarrow>
                 if g = 0x2B \<or> g = 0x2D
                 then map_option (\<lambda>(x, r). (e # g # x, r)) (lex_digits gs)
                 else map_option (\<lambda>(x, r). (e # x, r)) (lex_digits ds))
          else Some ([], s))"

definition lex_unsigned :: "jstring \<Rightarrow> (jstring \<times> jstring) option" where
  "lex_unsigned s =
     (case lex_int s of
        None \<Rightarrow> None
      | Some (i, r1) \<Rightarrow>
          (case lex_frac r1 of
             None \<Rightarrow> None
           | Some (f, r2) \<Rightarrow>
               (case lex_exp r2 of
                  None \<Rightarrow> None
                | Some (x, r3) \<Rightarrow> Some (i @ f @ x, r3))))"

definition lex_number :: "jstring \<Rightarrow> (jstring \<times> jstring) option" where
  "lex_number s =
     (case s of
        [] \<Rightarrow> None
      | c # cs \<Rightarrow>
          if c = 0x2D then map_option (\<lambda>(n, r). (c # n, r)) (lex_unsigned cs)
          else lex_unsigned s)"

text \<open>One token from a non-empty input that does not start with white space.\<close>

definition lex_token :: "jstring \<Rightarrow> (token \<times> jstring) option" where
  "lex_token s =
     (case s of
        [] \<Rightarrow> None
      | c # cs \<Rightarrow>
          if c = 0x5B then Some (LBracket, cs)
          else if c = 0x5D then Some (RBracket, cs)
          else if c = 0x7B then Some (LBrace, cs)
          else if c = 0x7D then Some (RBrace, cs)
          else if c = 0x3A then Some (Colon, cs)
          else if c = 0x2C then Some (Comma, cs)
          else if c = 0x22 then map_option (\<lambda>(v, r). (Scalar (JString v), r)) (lex_string [] cs)
          else if startsWith s (js ''true'') then Some (Scalar (JBool True), drop 4 s)
          else if startsWith s (js ''false'') then Some (Scalar (JBool False), drop 5 s)
          else if startsWith s (js ''null'') then Some (Scalar JNull, drop 4 s)
          else map_option (\<lambda>(n, r). (Scalar (JNumber n), r)) (lex_number s))"

lemma lex_string_shorter: "lex_string acc s = Some (v, r) \<Longrightarrow> length r < length s"
proof (induction acc s rule: lex_string.induct)
  case (1 acc)
  then show ?case by simp
next
  case (2 acc c cs)
  show ?case
  proof (cases "c = 0x22")
    case True
    with "2.prems" show ?thesis by simp
  next
    case quote: False
    show ?thesis
    proof (cases "c = 0x5C")
      case False
      with quote "2.prems" have "lex_string (acc @ [c]) cs = Some (v, r)" and "\<not> c < 0x20"
        by (auto split: if_splits)
      with quote False "2.IH"(3) show ?thesis by fastforce
    next
      case True
      then obtain e es where cs: "cs = e # es"
        using quote "2.prems" by (cases cs) auto
      show ?thesis
      proof (cases "e = 0x75")
        case False
        then obtain u where u: "simple_escape e = Some u" "lex_string (acc @ [u]) es = Some (v, r)"
          using quote True cs "2.prems" by (auto split: option.splits)
        with "2.IH"(2) [OF quote True cs False] have "length r < length es" by simp
        with cs show ?thesis by simp
      next
        case uni: True
        then obtain h1 h2 h3 h4 rest u where es: "es = h1 # h2 # h3 # h4 # rest"
          and u: "hex4 h1 h2 h3 h4 = Some u" "lex_string (acc @ [u]) rest = Some (v, r)"
          using quote True cs "2.prems" by (auto split: option.splits list.splits)
        have "length r < length rest"
          using "2.IH"(1) [OF quote True cs uni es refl refl refl u(1)] u(2) by simp
        with cs es show ?thesis by simp
      qed
    qed
  qed
qed

lemma lex_digits_shorter: "lex_digits s = Some (v, r) \<Longrightarrow> length r < length s"
proof -
  assume h: "lex_digits s = Some (v, r)"
  then have ne: "takeWhile is_digit s \<noteq> []" and r: "r = dropWhile is_digit s"
    by (auto simp: lex_digits_def split: if_splits)
  have "length (takeWhile is_digit s) + length (dropWhile is_digit s) = length s"
    by (metis length_append takeWhile_dropWhile_id)
  with ne r show ?thesis by (cases "takeWhile is_digit s") auto
qed

lemma lex_int_shorter: "lex_int s = Some (v, r) \<Longrightarrow> length r < length s"
  by (auto simp: lex_int_def split: list.splits if_splits dest: lex_digits_shorter)

lemma lex_frac_shorter: "lex_frac s = Some (v, r) \<Longrightarrow> length r \<le> length s"
  by (auto simp: lex_frac_def split: list.splits if_splits dest!: lex_digits_shorter)

lemma lex_exp_shorter: "lex_exp s = Some (v, r) \<Longrightarrow> length r \<le> length s"
  by (auto simp: lex_exp_def split: list.splits if_splits dest!: lex_digits_shorter)

lemma lex_unsigned_shorter: "lex_unsigned s = Some (v, r) \<Longrightarrow> length r < length s"
  by (auto simp: lex_unsigned_def split: option.splits
           dest!: lex_int_shorter lex_frac_shorter lex_exp_shorter)

lemma lex_number_shorter: "lex_number s = Some (v, r) \<Longrightarrow> length r < length s"
  by (auto simp: lex_number_def split: list.splits if_splits dest!: lex_unsigned_shorter)

lemma lex_token_shorter: "lex_token s = Some (t, r) \<Longrightarrow> length r < length s"
  by (auto simp: lex_token_def split: list.splits if_splits
           dest!: lex_string_shorter lex_number_shorter)

text \<open>The token sequence of a whole text, white space between tokens skipped.\<close>

function lex :: "jstring \<Rightarrow> token list option" where
  "lex [] = Some []"
| "lex (c # cs) =
     (if json_whitespace c then lex cs
      else (case lex_token (c # cs) of
              None \<Rightarrow> None
            | Some (t, rest) \<Rightarrow> map_option ((#) t) (lex rest)))"
  by pat_completeness auto
termination
  by (relation "measure length") (auto dest: lex_token_shorter)

text \<open>
  The pushdown recogniser. A frame is an array or an object under
  construction; \<open>Member ms k\<close> is an object whose member \<open>k\<close> waits for its
  value. The mode says what the grammar allows next.
\<close>

datatype frame =
    Elements "json list"
  | Members "(jstring \<times> json) list"
  | Member "(jstring \<times> json) list" jstring

datatype mode =
    Value
  | ValueOrClose
  | KeyOrClose
  | Key
  | AfterKey jstring
  | AfterValue
  | Complete json

datatype parser = Parser mode "frame list"

text \<open>A finished value goes to the innermost open container, or is the result.\<close>

fun deliver :: "json \<Rightarrow> frame list \<Rightarrow> parser option" where
  "deliver v [] = Some (Parser (Complete v) [])"
| "deliver v (Elements vs # st) = Some (Parser AfterValue (Elements (vs @ [v]) # st))"
| "deliver v (Member ms k # st) = Some (Parser AfterValue (Members (ms @ [(k, v)]) # st))"
| "deliver v (Members ms # st) = None"

fun start_value :: "token \<Rightarrow> frame list \<Rightarrow> parser option" where
  "start_value (Scalar v) st = deliver v st"
| "start_value LBracket st = Some (Parser ValueOrClose (Elements [] # st))"
| "start_value LBrace st = Some (Parser KeyOrClose (Members [] # st))"
| "start_value t st = None"

fun close_array :: "frame list \<Rightarrow> parser option" where
  "close_array (Elements vs # st) = deliver (JArray vs) st"
| "close_array st = None"

fun close_object :: "frame list \<Rightarrow> parser option" where
  "close_object (Members ms # st) = deliver (JObject ms) st"
| "close_object st = None"

fun read_key :: "token \<Rightarrow> frame list \<Rightarrow> parser option" where
  "read_key (Scalar (JString k)) st = Some (Parser (AfterKey k) st)"
| "read_key t st = None"

fun step :: "parser \<Rightarrow> token \<Rightarrow> parser option" where
  "step (Parser Value st) t = start_value t st"
| "step (Parser ValueOrClose st) t = (if t = RBracket then close_array st else start_value t st)"
| "step (Parser KeyOrClose st) t = (if t = RBrace then close_object st else read_key t st)"
| "step (Parser Key st) t = read_key t st"
| "step (Parser (AfterKey k) st) t =
     (case (t, st) of
        (Colon, Members ms # st') \<Rightarrow> Some (Parser Value (Member ms k # st'))
      | _ \<Rightarrow> None)"
| "step (Parser AfterValue st) t =
     (case (t, st) of
        (Comma, Elements vs # st') \<Rightarrow> Some (Parser Value st)
      | (Comma, Members ms # st') \<Rightarrow> Some (Parser Key st)
      | (RBracket, _) \<Rightarrow> close_array st
      | (RBrace, _) \<Rightarrow> close_object st
      | _ \<Rightarrow> None)"
| "step (Parser (Complete v) st) t = None"

fun run :: "parser \<Rightarrow> token list \<Rightarrow> parser option" where
  "run p [] = Some p"
| "run p (t # ts) = (case step p t of None \<Rightarrow> None | Some p' \<Rightarrow> run p' ts)"

definition JSON_parse :: "jstring \<Rightarrow> json option" where
  "JSON_parse s =
     (case lex s of
        None \<Rightarrow> None
      | Some ts \<Rightarrow>
          (case run (Parser Value []) ts of
             Some (Parser (Complete v) st) \<Rightarrow> Some v
           | _ \<Rightarrow> None))"

section \<open>The quick-reply annotation\<close>

text \<open>
  The regular expression \<^verbatim>\<open>/<!--QUICK_REPLIES:\[(.+?)\]-->/\<close> of
  \<^verbatim>\<open>extractQuickReplies\<close>: the literal opening, one or more code units
  that are not line terminators, as few as possible, and the literal closing.
\<close>

definition marker_open :: jstring where
  "marker_open = js ''<!--QUICK_REPLIES:[''"

definition marker_close :: jstring where
  "marker_close = js '']-->''"

definition line_terminator :: "unit16 \<Rightarrow> bool" where
  "line_terminator c = (c = 0x0A \<or> c = 0x0D \<or> c = 0x2028 \<or> c = 0x2029)"

text \<open>
  The group \<^verbatim>\<open>(.+?)\<close> followed by \<^verbatim>\<open>\]-->\<close>: the group takes one code unit and
  then one more each time the closing does not follow. The result is the
  captured text and the text after the closing.
\<close>

fun lazy_group :: "jstring \<Rightarrow> jstring \<Rightarrow> (jstring \<times> jstring) option" where
  "lazy_group captured [] = None"
| "lazy_group captured (c # cs) =
     (if line_terminator c then None
      else if startsWith cs marker_close then Some (captured @ [c], drop (length marker_close) cs)
      else lazy_group (captured @ [c]) cs)"

definition match_here :: "jstring \<Rightarrow> (jstring \<times> jstring) option" where
  "match_here s =
     (if startsWith s marker_open then lazy_group [] (drop (length marker_open) s) else None)"

text \<open>
  The first match, tried from the left at every position: the text before the
  match, the captured group (\<^verbatim>\<open>match[1]\<close>) and the text after the match.
\<close>

fun regex_search :: "jstring \<Rightarrow> jstring \<Rightarrow> (jstring \<times> jstring \<times> jstring) option" where
  "regex_search pre [] = None"
| "regex_search pre (c # cs) =
     (case match_here (c # cs) of
        Some (captured, post) \<Rightarrow> Some (pre, captured, post)
      | None \<Rightarrow> regex_search (pre @ [c]) cs)"

text \<open>
  \<^verbatim>\<open>extractQuickReplies\<close>. \<^verbatim>\<open>content.replace(re, "")\<close> removes the first match
  of the same expression, which leaves the text before and after it.
  \<^verbatim>\<open>replies\<close> is whatever \<^verbatim>\<open>JSON.parse\<close> returned.
\<close>

record extraction =
  cleanContent :: jstring
  quickReplies :: json

definition extractQuickReplies :: "jstring \<Rightarrow> extraction" where
  "extractQuickReplies content =
     (case regex_search [] content of
        None \<Rightarrow> \<lparr>cleanContent = content, quickReplies = JArray []\<rparr>
      | Some (pre, captured, post) \<Rightarrow>
          (case JSON_parse (js ''['' @ captured @ js '']'') of
             Some replies \<Rightarrow> \<lparr>cleanContent = trim (pre @ post), quickReplies = replies\<rparr>
           | None \<Rightarrow> \<lparr>cleanContent = content, quickReplies = JArray []\<rparr>))"

section \<open>The conversation and the assistant message\<close>

datatype role = User | Assistant

text \<open>
  \<^verbatim>\<open>interface ChatMessage\<close>. The timestamp is the number of milliseconds of
  the \<^verbatim>\<open>Date\<close>; the optional \<^verbatim>\<open>quickReplies\<close> is \<open>None\<close> when the property is
  absent.
\<close>

record ChatMessage =
  msg_id :: jstring
  msg_role :: role
  msg_content :: jstring
  msg_timestamp :: int
  msg_quickReplies :: "json option"

text \<open>
  The state that one call of \<^verbatim>\<open>sendMessage\<close> changes while it reads the
  reply: its local \<^verbatim>\<open>assistantSoFar\<close> and the message list of the store,
  which \<^verbatim>\<open>setMessages\<close> replaces by the result of its updater.
\<close>

record reply =
  assistantSoFar :: jstring
  messages :: "ChatMessage list"

text \<open>
  \<^verbatim>\<open>upsertAssistant\<close>. \<open>assistantId\<close> is the constant of the enclosing call
  and \<open>now\<close> the value of \<^verbatim>\<open>new Date()\<close>, which is read only when the message
  is created.
\<close>

definition upsertAssistant :: "jstring \<Rightarrow> int \<Rightarrow> jstring \<Rightarrow> reply \<Rightarrow> reply" where
  "upsertAssistant assistantId now chunk st =
     (let soFar = assistantSoFar st @ chunk;
          view = extractQuickReplies soFar;
          prev = messages st
      in \<lparr>assistantSoFar = soFar,
          messages =
            (if prev \<noteq> [] \<and> msg_role (last prev) = Assistant \<and> msg_id (last prev) = assistantId
             then map (\<lambda>(i, m).
                         if i = length prev - 1
                         then m\<lparr>msg_content := cleanContent view,
                                msg_quickReplies := Some (quickReplies view)\<rparr>
                         else m)
                      (enumerate 0 prev)
             else prev @ [\<lparr>msg_id = assistantId, msg_role = Assistant,
                            msg_content = cleanContent view, msg_timestamp = now,
                            msg_quickReplies = Some (quickReplies view)\<rparr>])\<rparr>)"

section \<open>Decoding the event stream\<close>

text \<open>
  Reading a property of a parsed value; \<open>None\<close> is \<^verbatim>\<open>undefined\<close>. Only the
  names \<^verbatim>\<open>choices\<close>, \<^verbatim>\<open>delta\<close>, \<^verbatim>\<open>content\<close> and the index \<^verbatim>\<open>0\<close> are read, which
  only an object has as a member, and an array or a non-empty string as its
  first element.
\<close>

fun member :: "jstring \<Rightarrow> json \<Rightarrow> json option" where
  "member name (JObject ms) = map_of (rev ms) name"
| "member name v = None"

fun element0 :: "json \<Rightarrow> json option" where
  "element0 (JArray vs) = (case vs of [] \<Rightarrow> None | v # rest \<Rightarrow> Some v)"
| "element0 (JString s) = (case s of [] \<Rightarrow> None | c # rest \<Rightarrow> Some (JString [c]))"
| "element0 (JObject ms) = map_of (rev ms) (js ''0'')"
| "element0 v = None"

text \<open>The optional chaining \<^verbatim>\<open>a?.p\<close>: \<^verbatim>\<open>undefined\<close> when \<^verbatim>\<open>a\<close> is \<^verbatim>\<open>undefined\<close> or \<^verbatim>\<open>null\<close>.\<close>

fun optional :: "json option \<Rightarrow> (json \<Rightarrow> json option) \<Rightarrow> json option" where
  "optional None read = None"
| "optional (Some JNull) read = None"
| "optional (Some v) read = read v"

text \<open>
  \<^verbatim>\<open>parsed.choices?.[0]?.delta?.content\<close>. The first access is not optional:
  on \<^verbatim>\<open>null\<close> it throws a \<^verbatim>\<open>TypeError\<close>, which is the outer \<open>None\<close>.
\<close>

definition delta_content :: "json \<Rightarrow> json option option" where
  "delta_content parsed =
     (if parsed = JNull then None
      else Some (optional (optional (optional (member (js ''choices'') parsed) element0)
                                    (member (js ''delta'')))
                          (member (js ''content''))))"

text \<open>
  The source gives \<^verbatim>\<open>content\<close> the type \<^verbatim>\<open>string | undefined\<close> by a cast, which
  checks nothing. For a number, an array or an object, whether
  \<^verbatim>\<open>if (content)\<close> holds and what \<^verbatim>\<open>assistantSoFar += content\<close> appends is the
  platform's conversion, which depends on floating point and on the members
  of the object; it is the parameter \<open>coerce\<close> of the decoder.
\<close>

datatype coerced = Falsy | Text jstring | TypeError

datatype attempt = Thrown | Skip | Append jstring

text \<open>
  The body of the \<^verbatim>\<open>try\<close> block: what it appends, or that it threw.
\<close>

definition try_parse :: "(json \<Rightarrow> coerced) \<Rightarrow> jstring \<Rightarrow> attempt" where
  "try_parse coerce jsonStr =
     (case JSON_parse jsonStr of
        None \<Rightarrow> Thrown
      | Some parsed \<Rightarrow>
          (case delta_content parsed of
             None \<Rightarrow> Thrown
           | Some None \<Rightarrow> Skip
           | Some (Some JNull) \<Rightarrow> Skip
           | Some (Some (JBool b)) \<Rightarrow> if b then Append (js ''true'') else Skip
           | Some (Some (JString s)) \<Rightarrow> if s = [] then Skip else Append s
           | Some (Some v) \<Rightarrow>
               (case coerce v of Falsy \<Rightarrow> Skip | Text t \<Rightarrow> Append t | TypeError \<Rightarrow> Thrown)))"

text \<open>What is fixed for one call of \<^verbatim>\<open>sendMessage\<close>.\<close>

record call =
  assistantId :: jstring
  created :: int
  coerce :: "json \<Rightarrow> coerced"

definition strip_cr :: "jstring \<Rightarrow> jstring" where
  "strip_cr line = (if endsWith line [CR] then butlast line else line)"

text \<open>
  One line of the \<^verbatim>\<open>while\<close> loop over the buffer, after the carriage return
  is stripped: the loop goes on (\<^verbatim>\<open>continue\<close>, or the end of the body), ends
  the stream (\<^verbatim>\<open>[DONE]\<close>), or puts the line back and leaves (\<^verbatim>\<open>catch\<close>).
\<close>

datatype outcome = Continue reply | Done | PutBack

definition stream_record :: "call \<Rightarrow> jstring \<Rightarrow> reply \<Rightarrow> outcome" where
  "stream_record env line st =
     (if startsWith line (js '':'') \<or> trim line = [] then Continue st
      else if \<not> startsWith line (js ''data: '') then Continue st
      else let jsonStr = trim (drop 6 line) in
        if jsonStr = js ''[DONE]'' then Done
        else (case try_parse (coerce env) jsonStr of
                Thrown \<Rightarrow> PutBack
              | Skip \<Rightarrow> Continue st
              | Append content \<Rightarrow>
                  Continue (upsertAssistant (assistantId env) (created env) content st)))"

lemma indexOf_newline_less: "indexOf_newline s = Some i \<Longrightarrow> i < length s"
  by (induction s arbitrary: i) (auto split: if_splits)

text \<open>
  The inner \<^verbatim>\<open>while\<close> loop: the buffer it leaves, \<^verbatim>\<open>streamDone\<close>, and the
  state.
\<close>

function stream_lines :: "call \<Rightarrow> jstring \<Rightarrow> reply \<Rightarrow> jstring \<times> bool \<times> reply" where
  "stream_lines env textBuffer st =
     (case indexOf_newline textBuffer of
        None \<Rightarrow> (textBuffer, False, st)
      | Some newlineIndex \<Rightarrow>
          (case stream_record env (strip_cr (take newlineIndex textBuffer)) st of
             Continue st' \<Rightarrow> stream_lines env (drop (newlineIndex + 1) textBuffer) st'
           | Done \<Rightarrow> (drop (newlineIndex + 1) textBuffer, True, st)
           | PutBack \<Rightarrow>
               (strip_cr (take newlineIndex textBuffer) @ [NL]
                  @ drop (newlineIndex + 1) textBuffer, False, st)))"
  by pat_completeness auto
termination
  by (relation "measure (\<lambda>(env, textBuffer, st). length textBuffer)")
     (auto dest: indexOf_newline_less)

declare stream_lines.simps [simp del]

text \<open>
  The outer loop. The list holds the decoded text of the successive
  \<^verbatim>\<open>reader.read()\<close> results; its end is \<^verbatim>\<open>done\<close>.
\<close>

fun read_chunks :: "call \<Rightarrow> jstring list \<Rightarrow> jstring \<Rightarrow> reply \<Rightarrow> jstring \<times> reply" where
  "read_chunks env [] textBuffer st = (textBuffer, st)"
| "read_chunks env (chunk # chunks) textBuffer st =
     (case stream_lines env (textBuffer @ chunk) st of
        (textBuffer', streamDone, st') \<Rightarrow>
          if streamDone then (textBuffer', st') else read_chunks env chunks textBuffer' st')"

text \<open>
  The final flush. \<open>flush_record\<close> is the body of its \<^verbatim>\<open>for\<close> loop after the
  carriage return is stripped; the loop skips an empty piece before that.
\<close>

definition flush_record :: "call \<Rightarrow> jstring \<Rightarrow> reply \<Rightarrow> reply" where
  "flush_record env raw st =
     (if startsWith raw (js '':'') \<or> trim raw = [] then st
      else if \<not> startsWith raw (js ''data: '') then st
      else let jsonStr = trim (drop 6 raw) in
        if jsonStr = js ''[DONE]'' then st
        else (case try_parse (coerce env) jsonStr of
                Thrown \<Rightarrow> st
              | Skip \<Rightarrow> st
              | Append content \<Rightarrow>
                  upsertAssistant (assistantId env) (created env) content st))"

fun flush_lines :: "call \<Rightarrow> jstring list \<Rightarrow> reply \<Rightarrow> reply" where
  "flush_lines env [] st = st"
| "flush_lines env (raw # raws) st =
     flush_lines env raws (if raw = [] then st else flush_record env (strip_cr raw) st)"

definition final_flush :: "call \<Rightarrow> jstring \<Rightarrow> reply \<Rightarrow> reply" where
  "final_flush env textBuffer st =
     (if trim textBuffer \<noteq> [] then flush_lines env (split_newline textBuffer) st else st)"

text \<open>
  The decoding part of \<^verbatim>\<open>sendMessage\<close>, from \<^verbatim>\<open>let textBuffer = ""\<close> to the end
  of the final flush.
\<close>

definition decode_stream :: "call \<Rightarrow> jstring list \<Rightarrow> reply \<Rightarrow> reply" where
  "decode_stream env chunks st =
     (case read_chunks env chunks [] st of
        (textBuffer, st') \<Rightarrow> final_flush env textBuffer st')"

section \<open>Conditions on a feed\<close>



section \<open>Inputs of the examples\<close>

definition record_hi :: jstring where
  "record_hi = js ''data: {\"choices\":[{\"delta\":{\"content\":\"Hi\"}}]}''"

definition record_done :: jstring where
  "record_done = js ''data: [DONE]''"

definition record_ignored :: jstring where
  "record_ignored = js ''data: {\"choices\":[{\"delta\":{\"content\":\"ignored\"}}]}''"

definition record_empty :: jstring where
  "record_empty = js ''data: {\"choices\":[{\"delta\":{\"content\":\"\"}}]}''"

definition example_call :: call where
  "example_call = \<lparr>assistantId = js ''1700000000001'', created = 1700000000001,
                    coerce = (\<lambda>v. Falsy)\<rparr>"

definition user_message :: ChatMessage where
  "user_message = \<lparr>msg_id = js ''1700000000000'', msg_role = User, msg_content = js ''hello'',
                    msg_timestamp = 1700000000000, msg_quickReplies = None\<rparr>"

definition example_start :: reply where
  "example_start = \<lparr>assistantSoFar = [], messages = [user_message]\<rparr>"

text \<open>The messages of a list that carry an id, and repeated calls of \<^verbatim>\<open>upsertAssistant\<close>.\<close>

definition with_id :: "jstring \<Rightarrow> ChatMessage list \<Rightarrow> ChatMessage list" where
  "with_id i ms = filter (\<lambda>m. msg_id m = i) ms"

fun upsert_all :: "jstring \<Rightarrow> (int \<times> jstring) list \<Rightarrow> reply \<Rightarrow> reply" where
  "upsert_all replyId [] st = st"
| "upsert_all replyId ((now, chunk) # calls) st =
     upsert_all replyId calls (upsertAssistant replyId now chunk st)"

text \<open>Whether a text occurs in another, and whether every element of an array is a string.\<close>

fun occurs_in :: "jstring \<Rightarrow> jstring \<Rightarrow> bool" where
  "occurs_in p [] = (p = [])"
| "occurs_in p (c # cs) = (startsWith (c # cs) p \<or> occurs_in p cs)"

fun array_of_strings :: "json \<Rightarrow> bool" where
  "array_of_strings (JArray vs) = list_all (\<lambda>v. case v of JString s \<Rightarrow> True | _ \<Rightarrow> False) vs"
| "array_of_strings v = False"

text \<open>The texts of the annotation examples.\<close>

definition text_unbalanced :: jstring where
  "text_unbalanced = js '' Pick one <!--QUICK_REPLIES:[\"Yes\",\"No\"]]--> ''"

definition text_number :: jstring where
  "text_number = js ''Rate us<!--QUICK_REPLIES:[1]-->''"

definition text_empty_marker :: jstring where
  "text_empty_marker = js ''Anything else?<!--QUICK_REPLIES:[]-->''"

definition text_two_markers :: jstring where
  "text_two_markers = js ''<!--QUICK_REPLIES:[\"Yes\"]--><!--QUICK_REPLIES:[]-->''"

text \<open>
  Every opening \<^verbatim>\<open><!--QUICK_REPLIES:[\<close> of a text is directly followed by the
  closing \<^verbatim>\<open>]-->\<close>: the text has no annotation but empty ones.
\<close>

fun only_empty_markers :: "jstring \<Rightarrow> bool" where
  "only_empty_markers [] = True"
| "only_empty_markers (c # cs) =
     ((startsWith (c # cs) marker_open \<longrightarrow> startsWith (c # cs) (marker_open @ marker_close))
      \<and> only_empty_markers cs)"

text \<open>
  A state of the recogniser whose outermost container is an array, or whose
  result is one.
\<close>

fun is_array :: "json \<Rightarrow> bool" where
  "is_array (JArray vs) = True"
| "is_array v = False"

fun is_elements :: "frame \<Rightarrow> bool" where
  "is_elements (Elements vs) = True"
| "is_elements f = False"

fun rooted :: "parser \<Rightarrow> bool" where
  "rooted (Parser (Complete v) st) = is_array v"
| "rooted (Parser m st) = (st \<noteq> [] \<and> is_elements (last st))"

text \<open>
  A record that the streaming loop puts back: it has the data prefix, is not
  the sentinel, and the \<^verbatim>\<open>try\<close> block throws on its payload.
\<close>

definition malformed :: "call \<Rightarrow> jstring \<Rightarrow> bool" where
  "malformed env line =
     (startsWith line (js ''data: '') \<and> trim (drop 6 line) \<noteq> js ''[DONE]''
      \<and> try_parse (coerce env) (trim (drop 6 line)) = Thrown)"

text \<open>The assistant message that \<^verbatim>\<open>upsertAssistant\<close> shows for an accumulated text.\<close>

definition assistant_message :: "jstring \<Rightarrow> int \<Rightarrow> jstring \<Rightarrow> ChatMessage" where
  "assistant_message replyId now soFar =
     \<lparr>msg_id = replyId, msg_role = Assistant,
      msg_content = cleanContent (extractQuickReplies soFar), msg_timestamp = now,
      msg_quickReplies = Some (quickReplies (extractQuickReplies soFar))\<rparr>"

text \<open>More inputs of the examples.\<close>

definition record_cut :: jstring where
  "record_cut = js ''data: {\"choices\":[{\"delta\":{\"content\":\"Hel''"

definition clash_start :: reply where
  "clash_start = \<lparr>assistantSoFar = [],
                    messages = [user_message\<lparr>msg_id := js ''1700000000001''\<rparr>]\<rparr>"

definition example_calls :: "(int \<times> jstring) list" where
  "example_calls = [(1700000000001, js ''Hel''), (1700000000002, js ''lo'')]"


section \<open>The records of the loops\<close>




text \<open>
  The records of the final flush: nothing when the buffer is blank, else the
  pieces between the newlines that are not empty, each with one carriage
  return stripped.
\<close>

definition flush :: "jstring \<Rightarrow> jstring list" where
  "flush textBuffer =
     (if trim textBuffer \<noteq> []
      then map strip_cr (filter (\<lambda>raw. raw \<noteq> []) (split_newline textBuffer))
      else [])"







section \<open>Stepping the loops through a buffer\<close>

lemma indexOf_newline_append:
  "NL \<notin> set line \<Longrightarrow> indexOf_newline (line @ NL # rest) = Some (length line)"
  by (induction line) auto


lemma stream_lines_line:
  assumes "NL \<notin> set line"
  shows "stream_lines env (line @ NL # rest) st =
     (case stream_record env (strip_cr line) st of
        Continue st' \<Rightarrow> stream_lines env rest st'
      | Done \<Rightarrow> (rest, True, st)
      | PutBack \<Rightarrow> (strip_cr line @ [NL] @ rest, False, st))"
  by (subst stream_lines.simps)
     (simp add: indexOf_newline_append [OF assms] split: outcome.split)


lemma split_newline_append:
  "NL \<notin> set line \<Longrightarrow> split_newline (line @ NL # rest) = line # split_newline rest"
  by (induction line) auto

lemma split_newline_no_newline: "NL \<notin> set s \<Longrightarrow> split_newline s = [s]"
  by (induction s) auto

lemma assistantSoFar_upsert:
  "assistantSoFar (upsertAssistant a n chunk st) = assistantSoFar st @ chunk"
  by (simp add: upsertAssistant_def Let_def)

section \<open>The termination sentinel and the final flush\<close>

lemma stream_hi:
  "stream_record env record_hi st =
     Continue (upsertAssistant (assistantId env) (created env) (js ''Hi'') st)"
  by code_simp

lemma stream_done: "stream_record env record_done st = Done"
  by code_simp

lemma flush_ignored:
  "flush_record env record_ignored st =
     upsertAssistant (assistantId env) (created env) (js ''ignored'') st"
  by code_simp

lemma records_plain:
  "NL \<notin> set record_hi" "NL \<notin> set record_done" "NL \<notin> set record_ignored"
  "strip_cr record_hi = record_hi" "strip_cr record_done = record_done"
  "strip_cr record_ignored = record_ignored"
  "record_ignored \<noteq> []" "trim (record_ignored @ [NL]) \<noteq> []"
  by code_simp+

text \<open>
  When the three records arrive in one chunk, the inner loop leaves at the
  sentinel with the third record still in the buffer, and the final flush,
  which does not look at \<^verbatim>\<open>streamDone\<close>, decodes it.
\<close>

lemma decode_one_chunk:
  "decode_stream env [record_hi @ NL # record_done @ NL # record_ignored @ [NL]] st =
     upsertAssistant (assistantId env) (created env) (js ''ignored'')
       (upsertAssistant (assistantId env) (created env) (js ''Hi'') st)"
  by (simp add: decode_stream_def stream_lines_line records_plain stream_hi stream_done
        final_flush_def split_newline_append split_newline_no_newline flush_ignored)

text \<open>
  When the third record arrives in a chunk of its own, that chunk is never
  read, and the buffer is empty at the final flush.
\<close>

lemma decode_two_chunks:
  "decode_stream env [record_hi @ NL # record_done @ [NL], record_ignored @ [NL]] st =
     upsertAssistant (assistantId env) (created env) (js ''Hi'') st"
  by (simp add: decode_stream_def stream_lines_line records_plain stream_hi stream_done
        final_flush_def trim_def)

text \<open>
  Claim C1 says that for the feed of the record with content \<^verbatim>\<open>Hi\<close>, the
  sentinel \<^verbatim>\<open>data: [DONE]\<close> and the record with content \<^verbatim>\<open>ignored\<close>, each ended
  by a newline, the accumulated text is \<^verbatim>\<open>Hi\<close> only, also when the third record
  comes in the same chunk as the sentinel and also after the final flush. The
  code does otherwise: with the whole feed in one chunk, for every call and
  every state the text \<^verbatim>\<open>Hiignored\<close> is appended.
\<close>

theorem sentinel_in_one_chunk_appends_ignored:
  "assistantSoFar
     (decode_stream env [record_hi @ NL # record_done @ NL # record_ignored @ [NL]] st) =
   assistantSoFar st @ js ''Hiignored''"
  by (simp add: decode_one_chunk assistantSoFar_upsert js_def)

text \<open>
  Claim C2 says that a feed delivered in one chunk and the same feed delivered
  in any partition give the same accumulated text and the same published
  views. The code does otherwise for the feed of C1: cut after the sentinel,
  it gives another accumulated text than in one piece.
\<close>

theorem chunk_boundary_changes_text:
  "assistantSoFar
     (decode_stream env [(record_hi @ NL # record_done @ [NL]) @ (record_ignored @ [NL])] st) \<noteq>
   assistantSoFar
     (decode_stream env [record_hi @ NL # record_done @ [NL], record_ignored @ [NL]] st)"
  using decode_one_chunk [of env st]
  by (simp add: decode_two_chunks assistantSoFar_upsert js_def)

section \<open>The annotation examples\<close>

text \<open>
  Claim C7: \<^verbatim>\<open>extractQuickReplies\<close> applied to
  \<^verbatim>\<open>Hello there<!--QUICK_REPLIES:["Yes","No"]-->\<close> returns the clean content
  \<^verbatim>\<open>Hello there\<close> and the quick replies \<^verbatim>\<open>["Yes","No"]\<close>.
\<close>

theorem annotation_stripping_example:
  "extractQuickReplies (js ''Hello there<!--QUICK_REPLIES:[\"Yes\",\"No\"]-->'') =
     \<lparr>cleanContent = js ''Hello there'',
      quickReplies = JArray [JString (js ''Yes''), JString (js ''No'')]\<rparr>"
  by code_simp

section \<open>What a match of the annotation pattern looks like\<close>

lemma startsWith_append: "startsWith s p \<longleftrightarrow> (\<exists>r. s = p @ r)"
  by (induction s p rule: startsWith.induct) auto

lemma startsWith_drop: "startsWith s p \<Longrightarrow> s = p @ drop (length p) s"
  by (auto simp: startsWith_append)

lemma lazy_group_Some:
  "lazy_group acc s = Some (cap, post) \<Longrightarrow>
     \<exists>x. x \<noteq> [] \<and> cap = acc @ x \<and> s = x @ marker_close @ post"
proof (induction acc s rule: lazy_group.induct)
  case (1 captured)
  then show ?case by simp
next
  case (2 captured c cs)
  show ?case
  proof (cases "startsWith cs marker_close")
    case True
    with "2.prems" have "cap = captured @ [c]" "post = drop (length marker_close) cs"
      by (auto split: if_splits)
    with True startsWith_drop [OF True] show ?thesis by auto
  next
    case False
    with "2.prems" have lt: "\<not> line_terminator c"
      and rec: "lazy_group (captured @ [c]) cs = Some (cap, post)"
      by (auto split: if_splits)
    from "2.IH" [OF lt False rec] obtain x where
      "x \<noteq> []" "cap = (captured @ [c]) @ x" "cs = x @ marker_close @ post" by blast
    then show ?thesis by (intro exI [of _ "c # x"]) simp
  qed
qed

lemma match_here_Some:
  assumes "match_here s = Some (cap, post)"
  shows "cap \<noteq> [] \<and> s = marker_open @ cap @ marker_close @ post"
proof -
  from assms have sw: "startsWith s marker_open"
    and lg: "lazy_group [] (drop (length marker_open) s) = Some (cap, post)"
    by (auto simp: match_here_def split: if_splits)
  from lazy_group_Some [OF lg] have "cap \<noteq> []"
    and "drop (length marker_open) s = cap @ marker_close @ post" by auto
  with startsWith_drop [OF sw] show ?thesis by simp
qed

text \<open>
  A match found by the search is a piece of the text: the opening, at least
  one captured code unit and the closing, between what is before and after.
\<close>

lemma regex_search_Some:
  "regex_search pre s = Some (p, cap, post) \<Longrightarrow>
     \<exists>a. p = pre @ a \<and> cap \<noteq> [] \<and> s = a @ marker_open @ cap @ marker_close @ post"
proof (induction pre s rule: regex_search.induct)
  case (1 pre)
  then show ?case by simp
next
  case (2 pre c cs)
  show ?case
  proof (cases "match_here (c # cs)")
    case None
    with "2.prems" have "regex_search (pre @ [c]) cs = Some (p, cap, post)" by simp
    from "2.IH" [OF None this] obtain a where
      "p = (pre @ [c]) @ a" "cap \<noteq> []" "cs = a @ marker_open @ cap @ marker_close @ post"
      by blast
    then show ?thesis by (intro exI [of _ "c # a"]) simp
  next
    case (Some m)
    with "2.prems" have "match_here (c # cs) = Some (cap, post)" "p = pre"
      by (auto split: prod.splits)
    with match_here_Some [of "c # cs" cap post] show ?thesis by (intro exI [of _ "[]"]) simp
  qed
qed

section \<open>The fallback of the extraction\<close>

text \<open>
  Claim C8: when the annotation pattern is found but \<^verbatim>\<open>[\<close> + captured text + \<^verbatim>\<open>]\<close>
  fails to parse as JSON, \<^verbatim>\<open>extractQuickReplies\<close> returns the input text
  unchanged (the marker kept, nothing trimmed) and no quick replies; likewise
  when the pattern is not found at all.
\<close>

theorem annotation_parse_failure_fallback:
  assumes "regex_search [] content = None \<or>
           (\<exists>pre captured post. regex_search [] content = Some (pre, captured, post) \<and>
              JSON_parse (js ''['' @ captured @ js '']'') = None)"
  shows "extractQuickReplies content = \<lparr>cleanContent = content, quickReplies = JArray []\<rparr>"
  using assms by (auto simp: extractQuickReplies_def)

text \<open>
  The text \<^verbatim>\<open> Pick one <!--QUICK_REPLIES:["Yes","No"]]--> \<close> has unbalanced
  brackets: the pattern matches, the captured text does not parse, and the
  text comes back with its marker and its surrounding blanks.
\<close>

theorem annotation_parse_failure_fallback_witness:
  "regex_search [] text_unbalanced =
     Some (js '' Pick one '', js ''\"Yes\",\"No\"]'', js '' '')
   \<and> JSON_parse (js ''['' @ js ''\"Yes\",\"No\"]'' @ js '']'') = None
   \<and> extractQuickReplies text_unbalanced =
       \<lparr>cleanContent = text_unbalanced, quickReplies = JArray []\<rparr>"
proof -
  have found: "regex_search [] text_unbalanced =
                 Some (js '' Pick one '', js ''\"Yes\",\"No\"]'', js '' '')"
    by code_simp
  have fails: "JSON_parse (js ''['' @ js ''\"Yes\",\"No\"]'' @ js '']'') = None"
    by code_simp
  from found fails have
    "regex_search [] text_unbalanced = None \<or>
     (\<exists>pre captured post. regex_search [] text_unbalanced = Some (pre, captured, post) \<and>
        JSON_parse (js ''['' @ captured @ js '']'') = None)"
    by blast
  from annotation_parse_failure_fallback [OF this] found fails show ?thesis by blast
qed

section \<open>The type of the quick replies\<close>

lemma deliver_rooted:
  "st \<noteq> [] \<Longrightarrow> is_elements (last st) \<Longrightarrow> deliver v st = Some p \<Longrightarrow> rooted p"
  by (cases "(v, st)" rule: deliver.cases) (auto split: if_splits)

lemma start_value_rooted:
  "st \<noteq> [] \<Longrightarrow> is_elements (last st) \<Longrightarrow> start_value t st = Some p \<Longrightarrow> rooted p"
  by (cases "(t, st)" rule: start_value.cases) (auto dest: deliver_rooted)

lemma close_array_rooted:
  "st \<noteq> [] \<Longrightarrow> is_elements (last st) \<Longrightarrow> close_array st = Some p \<Longrightarrow> rooted p"
  by (cases st rule: close_array.cases) (auto dest: deliver_rooted split: if_splits)

lemma close_object_rooted:
  "st \<noteq> [] \<Longrightarrow> is_elements (last st) \<Longrightarrow> close_object st = Some p \<Longrightarrow> rooted p"
  by (cases st rule: close_object.cases) (auto dest: deliver_rooted split: if_splits)

lemma read_key_rooted:
  "st \<noteq> [] \<Longrightarrow> is_elements (last st) \<Longrightarrow> read_key t st = Some p \<Longrightarrow> rooted p"
  by (cases "(t, st)" rule: read_key.cases) auto

lemma step_rooted: "rooted p \<Longrightarrow> step p t = Some p' \<Longrightarrow> rooted p'"
  by (cases "(p, t)" rule: step.cases)
     (auto dest: start_value_rooted close_array_rooted close_object_rooted read_key_rooted
           split: if_splits token.splits list.splits frame.splits)

lemma run_rooted: "rooted p \<Longrightarrow> run p ts = Some p' \<Longrightarrow> rooted p'"
  by (induction ts arbitrary: p) (auto dest: step_rooted split: option.splits)

text \<open>A text that starts with \<^verbatim>\<open>[\<close> parses, if at all, to an array.\<close>

lemma JSON_parse_bracket:
  assumes "JSON_parse (0x5B # s) = Some v"
  shows "\<exists>vs. v = JArray vs"
proof -
  from assms obtain ts where ts: "lex (0x5B # s) = Some ts"
    by (auto simp: JSON_parse_def split: option.splits)
  then obtain ts' where ts': "ts = LBracket # ts'"
    by (auto simp: json_whitespace_def lex_token_def)
  from assms ts ts' obtain st where
    "run (Parser ValueOrClose [Elements []]) ts' = Some (Parser (Complete v) st)"
    by (auto simp: JSON_parse_def split: option.splits parser.splits mode.splits)
  from run_rooted [OF _ this] have "is_array v" by simp
  then show ?thesis by (cases v) auto
qed

text \<open>
  What the function returns when the annotation parses: the parsed value
  itself, which is an array, and the text without the match, trimmed.
\<close>

lemma extraction_returns_parsed_value:
  assumes "regex_search [] content = Some (pre, captured, post)"
    and "JSON_parse (js ''['' @ captured @ js '']'') = Some replies"
  shows "quickReplies (extractQuickReplies content) = replies
         \<and> (\<exists>vs. replies = JArray vs)
         \<and> cleanContent (extractQuickReplies content) = trim (pre @ post)"
proof -
  from assms(2) have "JSON_parse (0x5B # captured @ js '']'') = Some replies"
    by (simp add: js_def)
  from JSON_parse_bracket [OF this] assms show ?thesis
    by (simp add: extractQuickReplies_def)
qed

text \<open>
  Claim C3 says that whenever the marker is found and \<^verbatim>\<open>[\<close> + captured text +
  \<^verbatim>\<open>]\<close> parses, every element of the returned quick replies is a string, as
  the function declares with its result type \<^verbatim>\<open>quickReplies: string[]\<close>. The
  code returns what \<^verbatim>\<open>JSON.parse\<close> gave without looking at the elements: for
  \<^verbatim>\<open>Rate us<!--QUICK_REPLIES:[1]-->\<close> the marker is found, the captured text
  parses, and the quick replies are the array of the number 1.
\<close>

theorem quick_replies_number_returned:
  "regex_search [] text_number = Some (js ''Rate us'', js ''1'', [])
   \<and> JSON_parse (js ''['' @ js ''1'' @ js '']'') = Some (JArray [JNumber (js ''1'')])
   \<and> quickReplies (extractQuickReplies text_number) = JArray [JNumber (js ''1'')]
   \<and> \<not> array_of_strings (quickReplies (extractQuickReplies text_number))"
  by code_simp

section \<open>The annotation with empty brackets\<close>

lemma marker_close_units: "marker_close = [0x5D, 0x2D, 0x2D, 0x3E]"
  by code_simp

lemma lazy_group_prefix: "lazy_group acc s = Some (cap, post) \<Longrightarrow> \<exists>x. cap = acc @ x"
  by (drule lazy_group_Some) auto

text \<open>
  Directly after the opening, the closing cannot end the group, which needs
  one code unit: the group runs over the closing, to a later one if there is.
\<close>

lemma lazy_group_empty_marker:
  assumes "lazy_group [] (marker_close @ r) = Some (cap, post)"
  shows "\<exists>x. cap = marker_close @ x"
proof -
  have "lazy_group [] (marker_close @ r) =
          (if startsWith r marker_close then Some (marker_close, drop (length marker_close) r)
           else lazy_group marker_close r)"
    by (simp add: marker_close_units line_terminator_def)
  with assms show ?thesis
    by (auto split: if_splits dest: lazy_group_prefix)
qed

lemma match_here_empty_marker:
  assumes "startsWith s (marker_open @ marker_close)" "match_here s = Some (cap, post)"
  shows "\<exists>x. cap = marker_close @ x"
proof -
  from assms(1) obtain r where s: "s = marker_open @ marker_close @ r"
    by (auto simp: startsWith_append)
  with assms(2) have "lazy_group [] (marker_close @ r) = Some (cap, post)"
    by (auto simp: match_here_def split: if_splits)
  then show ?thesis by (rule lazy_group_empty_marker)
qed

lemma regex_search_empty_marker:
  "only_empty_markers s \<Longrightarrow> regex_search pre s = Some (p, cap, post) \<Longrightarrow>
     \<exists>x. cap = marker_close @ x"
proof (induction pre s rule: regex_search.induct)
  case (1 pre)
  then show ?case by simp
next
  case (2 pre c cs)
  show ?case
  proof (cases "match_here (c # cs)")
    case None
    with "2.prems" "2.IH" show ?thesis by simp
  next
    case (Some m)
    with "2.prems" have m: "match_here (c # cs) = Some (cap, post)"
      by (auto split: prod.splits)
    then have "startsWith (c # cs) marker_open"
      by (auto simp: match_here_def split: if_splits)
    with "2.prems"(1) have "startsWith (c # cs) (marker_open @ marker_close)" by simp
    from match_here_empty_marker [OF this m] show ?thesis .
  qed
qed

text \<open>\<^verbatim>\<open>[]-->\<close> followed by anything is not JSON.\<close>

lemma JSON_parse_after_empty_array:
  "JSON_parse (js ''['' @ (marker_close @ x) @ js '']'') = None"
  by (simp add: JSON_parse_def marker_close_units js_def json_whitespace_def lex_token_def
        lex_number_def lex_unsigned_def lex_int_def lex_digits_def is_digit_def)

text \<open>
  Claim C10 says that for every text containing \<^verbatim>\<open><!--QUICK_REPLIES:[]-->\<close> the
  pattern does not match, so that the text comes back unchanged and without
  quick replies. A text may hold a second annotation: in
  \<^verbatim>\<open><!--QUICK_REPLIES:["Yes"]--><!--QUICK_REPLIES:[]-->\<close> the first one matches
  and is removed, and its reply is returned.
\<close>

theorem empty_marker_beside_annotation_counterexample:
  "occurs_in (marker_open @ marker_close) text_two_markers
   \<and> quickReplies (extractQuickReplies text_two_markers) = JArray [JString (js ''Yes'')]
   \<and> cleanContent (extractQuickReplies text_two_markers) \<noteq> text_two_markers"
  by code_simp

text \<open>
  Claim C10 as amended: for every text that contains the marker with empty
  brackets and in which every opening \<^verbatim>\<open><!--QUICK_REPLIES:[\<close> is directly followed
  by \<^verbatim>\<open>]-->\<close>, \<^verbatim>\<open>extractQuickReplies\<close> returns the text unchanged, the marker
  still in the clean content, and no quick replies. (The pattern may match
  from an empty marker to a later \<^verbatim>\<open>]-->\<close> of the same line; what it captures
  then does not parse.)
\<close>

theorem only_empty_markers_unrecognized:
  assumes "occurs_in (marker_open @ marker_close) content" and "only_empty_markers content"
  shows "extractQuickReplies content = \<lparr>cleanContent = content, quickReplies = JArray []\<rparr>
         \<and> occurs_in (marker_open @ marker_close) (cleanContent (extractQuickReplies content))"
proof -
  have "extractQuickReplies content = \<lparr>cleanContent = content, quickReplies = JArray []\<rparr>"
  proof (cases "regex_search [] content")
    case None
    then show ?thesis by (simp add: extractQuickReplies_def)
  next
    case (Some m)
    then obtain pre cap post where m: "regex_search [] content = Some (pre, cap, post)"
      by (cases m) auto
    from regex_search_empty_marker [OF assms(2) m] obtain x where "cap = marker_close @ x" ..
    with m show ?thesis
      using JSON_parse_after_empty_array [of x] by (simp add: extractQuickReplies_def)
  qed
  with assms(1) show ?thesis by simp
qed

theorem only_empty_markers_unrecognized_witness:
  "occurs_in (marker_open @ marker_close) text_empty_marker
   \<and> only_empty_markers text_empty_marker
   \<and> extractQuickReplies text_empty_marker =
       \<lparr>cleanContent = text_empty_marker, quickReplies = JArray []\<rparr>
   \<and> occurs_in (marker_open @ marker_close) (cleanContent (extractQuickReplies text_empty_marker))"
proof -
  have a: "occurs_in (marker_open @ marker_close) text_empty_marker" by code_simp
  have b: "only_empty_markers text_empty_marker" by code_simp
  from only_empty_markers_unrecognized [OF a b] a b show ?thesis by blast
qed

section \<open>Records with a content string\<close>

lemma data_prefix_units: "js ''data: '' = [0x64, 0x61, 0x74, 0x61, 0x3A, 0x20]" "js '':'' = [0x3A]"
  by code_simp+

lemma trim_Cons_visible: "\<not> js_whitespace c \<Longrightarrow> trim (c # cs) \<noteq> []"
  by (auto simp: trim_def dropWhile_eq_Nil_conv)

lemma data_record:
  assumes "startsWith line (js ''data: '')"
  shows "\<not> startsWith line (js '':'')" "trim line \<noteq> []"
proof -
  from assms obtain r where line: "line = js ''data: '' @ r"
    by (auto simp: startsWith_append)
  show "\<not> startsWith line (js '':'')" by (simp add: line data_prefix_units)
  have "\<not> js_whitespace 0x64" by (simp add: js_whitespace_def)
  then show "trim line \<noteq> []" by (simp add: line data_prefix_units trim_Cons_visible)
qed

lemma sentinel_not_json: "JSON_parse (js ''[DONE]'') = None"
  by code_simp

text \<open>
  Claim C4 says that every record whose payload parses and has a string at
  \<^verbatim>\<open>choices[0].delta.content\<close> is a data payload whose string is appended,
  also when the string is empty. The code tests \<^verbatim>\<open>if (content)\<close>, which the
  empty string fails: for the first record of a reply with content \<^verbatim>\<open>""\<close>,
  \<^verbatim>\<open>upsertAssistant\<close> is not called and no assistant message is published.
\<close>

theorem empty_content_not_appended_counterexample:
  "startsWith record_empty (js ''data: '')
   \<and> JSON_parse (trim (drop 6 record_empty)) =
       Some (JObject [(js ''choices'',
               JArray [JObject [(js ''delta'', JObject [(js ''content'', JString [])])]])])
   \<and> delta_content
        (JObject [(js ''choices'',
               JArray [JObject [(js ''delta'', JObject [(js ''content'', JString [])])]])]) =
       Some (Some (JString []))
   \<and> stream_record example_call record_empty example_start \<noteq>
       Continue (upsertAssistant (assistantId example_call) (created example_call) []
                   example_start)"
  by code_simp

text \<open>
  Claim C4 as amended: for every record whose payload, after the data prefix
  is stripped and the rest trimmed, parses and has a string at
  \<^verbatim>\<open>choices[0].delta.content\<close>, the streaming loop and the final flush call
  \<^verbatim>\<open>upsertAssistant\<close> with exactly that string when it is not empty, and go
  on to the next record without any change when it is empty.
\<close>

theorem content_record_appended:
  assumes "startsWith line (js ''data: '')"
    and "JSON_parse (trim (drop 6 line)) = Some parsed"
    and "delta_content parsed = Some (Some (JString s))"
  shows "stream_record env line st =
           Continue (if s = [] then st
                     else upsertAssistant (assistantId env) (created env) s st)
         \<and> flush_record env line st =
             (if s = [] then st else upsertAssistant (assistantId env) (created env) s st)"
proof -
  from assms(2) sentinel_not_json have "trim (drop 6 line) \<noteq> js ''[DONE]''" by auto
  moreover from assms(2,3) have
    "try_parse (coerce env) (trim (drop 6 line)) = (if s = [] then Skip else Append s)"
    by (simp add: try_parse_def)
  ultimately show ?thesis
    using data_record [OF assms(1)] assms(1)
    by (simp add: stream_record_def flush_record_def Let_def)
qed

theorem content_record_appended_witness:
  "startsWith record_hi (js ''data: '')
   \<and> JSON_parse (trim (drop 6 record_hi)) =
       Some (JObject [(js ''choices'',
               JArray [JObject [(js ''delta'', JObject [(js ''content'', JString (js ''Hi''))])]])])
   \<and> delta_content
        (JObject [(js ''choices'',
               JArray [JObject [(js ''delta'', JObject [(js ''content'', JString (js ''Hi''))])]])]) =
       Some (Some (JString (js ''Hi'')))
   \<and> stream_record example_call record_hi example_start =
       Continue (if js ''Hi'' = [] then example_start
                 else upsertAssistant (assistantId example_call) (created example_call)
                        (js ''Hi'') example_start)
   \<and> flush_record example_call record_hi example_start =
       (if js ''Hi'' = [] then example_start
        else upsertAssistant (assistantId example_call) (created example_call)
               (js ''Hi'') example_start)"
proof -
  have a: "startsWith record_hi (js ''data: '')" by code_simp
  have b: "JSON_parse (trim (drop 6 record_hi)) =
       Some (JObject [(js ''choices'',
               JArray [JObject [(js ''delta'', JObject [(js ''content'', JString (js ''Hi''))])]])])"
    by code_simp
  have c: "delta_content
        (JObject [(js ''choices'',
               JArray [JObject [(js ''delta'', JObject [(js ''content'', JString (js ''Hi''))])]])]) =
       Some (Some (JString (js ''Hi'')))"
    by code_simp
  from content_record_appended [OF a b c, of example_call example_start] a b c
  show ?thesis by blast
qed

section \<open>Records that do not parse\<close>

lemma endsWith_CR: "endsWith line [CR] \<longleftrightarrow> line \<noteq> [] \<and> last line = CR"
  by (cases line rule: rev_cases) (auto simp: endsWith_def)

lemma trim_snoc_whitespace:
  assumes "js_whitespace c"
  shows "trim (xs @ [c]) = trim xs"
proof (cases "\<forall>x\<in>set xs. js_whitespace x")
  case True
  with assms have "\<forall>x\<in>set (xs @ [c]). js_whitespace x" by simp
  then have "dropWhile js_whitespace (xs @ [c]) = []" by (rule iffD2 [OF dropWhile_eq_Nil_conv])
  moreover from True have "dropWhile js_whitespace xs = []"
    by (rule iffD2 [OF dropWhile_eq_Nil_conv])
  ultimately show ?thesis by (simp only: trim_def rev.simps dropWhile.simps)
next
  case False
  then have "dropWhile js_whitespace (xs @ [c]) = dropWhile js_whitespace xs @ [c]"
    by (auto simp: dropWhile_append1)
  with assms show ?thesis by (simp add: trim_def)
qed

lemma strip_cr_record:
  assumes "startsWith line (js ''data: '')"
  shows "startsWith (strip_cr line) (js ''data: '')"
    and "trim (drop 6 (strip_cr line)) = trim (drop 6 line)"
proof -
  from assms obtain r where line: "line = js ''data: '' @ r"
    by (auto simp: startsWith_append)
  have len: "length (js ''data: '') = 6" by (simp add: js_def)
  have ws: "js_whitespace CR" by (simp add: js_whitespace_def CR_def)
  show "startsWith (strip_cr line) (js ''data: '')"
  proof (cases "endsWith line [CR]")
    case False
    with assms show ?thesis by (simp add: strip_cr_def)
  next
    case True
    then have "r \<noteq> []" by (auto simp: endsWith_def line data_prefix_units CR_def)
    with True show ?thesis
      by (simp add: strip_cr_def line butlast_append startsWith_append)
  qed
  show "trim (drop 6 (strip_cr line)) = trim (drop 6 line)"
  proof (cases "endsWith line [CR]")
    case False
    then show ?thesis by (simp add: strip_cr_def)
  next
    case True
    then have r: "r \<noteq> []" by (auto simp: endsWith_def line data_prefix_units CR_def)
    with True have "last r = CR" by (simp add: endsWith_CR line)
    with append_butlast_last_id [OF r] have "butlast r @ [CR] = r" by simp
    with trim_snoc_whitespace [OF ws, of "butlast r"] have "trim r = trim (butlast r)" by simp
    with True r len show ?thesis by (simp add: strip_cr_def line butlast_append)
  qed
qed

text \<open>
  Stripping a carriage return from a record that has the data prefix leaves
  the prefix and the trimmed payload as they are: a record that was put back
  is put back again at the next attempt.
\<close>

lemma malformed_strip_cr: "malformed env line \<Longrightarrow> malformed env (strip_cr line)"
  by (simp add: malformed_def strip_cr_record)

lemma stream_malformed: "malformed env line \<Longrightarrow> stream_record env line st = PutBack"
  by (simp add: malformed_def stream_record_def Let_def data_record)

lemma flush_malformed: "malformed env line \<Longrightarrow> flush_record env line st = st"
  by (simp add: malformed_def flush_record_def Let_def data_record)

lemma strip_cr_no_newline: "NL \<notin> set raw \<Longrightarrow> NL \<notin> set (strip_cr raw)"
  by (auto simp: strip_cr_def dest: in_set_butlastD)

lemma malformed_stays:
  "NL \<notin> set raw \<Longrightarrow> malformed env (strip_cr raw) \<Longrightarrow>
     read_chunks env chunks (raw @ NL # rest) st =
       ((strip_cr ^^ length chunks) raw @ NL # rest @ concat chunks, st)"
proof (induction chunks arbitrary: raw rest)
  case Nil
  then show ?case by simp
next
  case (Cons chunk chunks)
  have "stream_lines env (raw @ NL # (rest @ chunk)) st =
          (strip_cr raw @ NL # (rest @ chunk), False, st)"
    using Cons.prems by (simp add: stream_lines_line stream_malformed)
  moreover have "read_chunks env chunks (strip_cr raw @ NL # (rest @ chunk)) st =
          ((strip_cr ^^ length chunks) (strip_cr raw) @ NL # (rest @ chunk) @ concat chunks, st)"
    by (rule Cons.IH [OF strip_cr_no_newline [OF Cons.prems(1)]
                        malformed_strip_cr [OF Cons.prems(2)]])
  ultimately show ?case by (simp add: funpow_swap1)
qed

text \<open>
  Claim C5: when the payload of a record with the data prefix fails to parse
  during streaming, the loop puts that record and a newline back at the front
  of the buffer and leaves the rest of the batch unprocessed, so that the
  record is not lost while the stream is open (it is still the first line of
  the buffer after any number of further chunks, and the state has not moved);
  in the final flush a record that does not parse is dropped. The record is
  the line with its carriage return stripped, and the sentinel, which is never
  parsed, is not such a record.
\<close>

theorem malformed_record_put_back:
  assumes "NL \<notin> set raw"
    and "startsWith (strip_cr raw) (js ''data: '')"
    and "trim (drop 6 (strip_cr raw)) \<noteq> js ''[DONE]''"
    and "JSON_parse (trim (drop 6 (strip_cr raw))) = None"
  shows "stream_lines env (raw @ NL # rest) st = (strip_cr raw @ [NL] @ rest, False, st)
         \<and> read_chunks env chunks (raw @ NL # rest) st =
             ((strip_cr ^^ length chunks) raw @ NL # rest @ concat chunks, st)
         \<and> flush_lines env (raw # raws) st = flush_lines env raws st"
proof -
  from assms(2-4) have m: "malformed env (strip_cr raw)"
    by (simp add: malformed_def try_parse_def)
  from assms(1) m show ?thesis
    by (simp add: stream_lines_line stream_malformed malformed_stays flush_malformed)
qed

theorem malformed_record_put_back_witness:
  "NL \<notin> set record_cut
   \<and> startsWith (strip_cr record_cut) (js ''data: '')
   \<and> trim (drop 6 (strip_cr record_cut)) \<noteq> js ''[DONE]''
   \<and> JSON_parse (trim (drop 6 (strip_cr record_cut))) = None
   \<and> stream_lines example_call (record_cut @ NL # record_hi @ [NL]) example_start =
       (strip_cr record_cut @ [NL] @ record_hi @ [NL], False, example_start)
   \<and> read_chunks example_call [record_hi @ [NL]] (record_cut @ NL # record_hi @ [NL])
         example_start =
       ((strip_cr ^^ length [record_hi @ [NL]]) record_cut @ NL # (record_hi @ [NL])
          @ concat [record_hi @ [NL]], example_start)
   \<and> flush_lines example_call (record_cut # [record_hi]) example_start =
       flush_lines example_call [record_hi] example_start"
proof -
  have a: "NL \<notin> set record_cut" by code_simp
  have b: "startsWith (strip_cr record_cut) (js ''data: '')" by code_simp
  have c: "trim (drop 6 (strip_cr record_cut)) \<noteq> js ''[DONE]''" by code_simp
  have d: "JSON_parse (trim (drop 6 (strip_cr record_cut))) = None" by code_simp
  from malformed_record_put_back [OF a b c d, of example_call "record_hi @ [NL]" example_start "[record_hi @ [NL]]"
      "[record_hi]"] a b c d
  show ?thesis by blast
qed

section \<open>One assistant message, replaced in place\<close>

text \<open>
  The updater of \<^verbatim>\<open>upsertAssistant\<close> maps over the list with the index and
  changes the element at the last index only.
\<close>

lemma replace_last:
  assumes "prev \<noteq> []"
  shows "map (\<lambda>(i, m). if i = length prev - 1 then f m else m) (enumerate 0 prev) =
           butlast prev @ [f (last prev)]"
proof -
  from assms obtain xs x where prev: "prev = xs @ [x]" by (cases prev rule: rev_cases) auto
  have "map (\<lambda>(i, m). if i = length xs then f m else m) (enumerate 0 xs) =
          map snd (enumerate 0 xs)"
    by (rule map_cong) (auto simp: in_set_enumerate_eq)
  then show ?thesis by (simp add: prev enumerate_append_eq)
qed

lemma replace_last_snoc:
  "map (\<lambda>(i, m). if i = length xs then f m else m) (enumerate 0 (xs @ [x])) = xs @ [f x]"
  using replace_last [of "xs @ [x]" f] by simp

lemma upsert_first:
  assumes "\<forall>m\<in>set prev. msg_id m \<noteq> a"
  shows "upsertAssistant a now chunk \<lparr>assistantSoFar = t, messages = prev\<rparr> =
           \<lparr>assistantSoFar = t @ chunk, messages = prev @ [assistant_message a now (t @ chunk)]\<rparr>"
  using assms by (auto simp: upsertAssistant_def Let_def assistant_message_def)

lemma upsert_next:
  "upsertAssistant a now chunk
     \<lparr>assistantSoFar = t, messages = prev @ [assistant_message a made t]\<rparr> =
   \<lparr>assistantSoFar = t @ chunk,
    messages = prev @ [assistant_message a made (t @ chunk)]\<rparr>"
  by (simp add: upsertAssistant_def Let_def replace_last_snoc) (simp add: assistant_message_def)

lemma upsert_all_next:
  "upsert_all a calls \<lparr>assistantSoFar = t, messages = prev @ [assistant_message a made t]\<rparr> =
   \<lparr>assistantSoFar = t @ concat (map snd calls),
    messages = prev @ [assistant_message a made (t @ concat (map snd calls))]\<rparr>"
  by (induction calls arbitrary: t) (auto simp: upsert_next)

lemma with_id_fresh: "\<forall>m\<in>set prev. msg_id m \<noteq> a \<Longrightarrow> with_id a prev = []"
  by (auto simp: with_id_def filter_empty_conv)

text \<open>
  Claim C6 says that after N calls of \<^verbatim>\<open>upsertAssistant\<close> for one reply id the
  list holds exactly one message with that id. The function looks at the last
  message only: when the list already holds a message with that id (here a
  user message whose id is the same clock value), the first call appends a
  second message with the id.
\<close>

theorem reply_id_in_list_counterexample:
  "length (with_id (js ''1700000000001'')
     (messages (upsert_all (js ''1700000000001'') [(1700000000001, js ''Hi'')] clash_start))) = 2"
  by code_simp

text \<open>
  Claim C6 as amended: when no message of the list carries the reply id before
  the first call, then for every N \<ge> 1, after N calls of \<^verbatim>\<open>upsertAssistant\<close>
  from the empty accumulated text with nothing else changing the list, the
  list is the former list followed by one message; it is the only message with
  that id, its role is assistant, and its content is the clean content that
  \<^verbatim>\<open>extractQuickReplies\<close> gives for the concatenation of the N fragments in
  order.
\<close>

theorem single_assistant_message:
  assumes "calls \<noteq> []" and "\<forall>m\<in>set prev. msg_id m \<noteq> replyId"
  shows "messages (upsert_all replyId calls \<lparr>assistantSoFar = [], messages = prev\<rparr>) =
           prev @ [assistant_message replyId (fst (hd calls)) (concat (map snd calls))]
         \<and> with_id replyId
              (messages (upsert_all replyId calls \<lparr>assistantSoFar = [], messages = prev\<rparr>)) =
             [assistant_message replyId (fst (hd calls)) (concat (map snd calls))]
         \<and> msg_role (assistant_message replyId (fst (hd calls)) (concat (map snd calls))) =
             Assistant
         \<and> msg_content (assistant_message replyId (fst (hd calls)) (concat (map snd calls))) =
             cleanContent (extractQuickReplies (concat (map snd calls)))"
proof -
  from assms(1) obtain now chunk rest where calls: "calls = (now, chunk) # rest"
    by (cases calls) auto
  have "upsert_all replyId calls \<lparr>assistantSoFar = [], messages = prev\<rparr> =
          \<lparr>assistantSoFar = concat (map snd calls),
           messages = prev @ [assistant_message replyId now (concat (map snd calls))]\<rparr>"
    using upsert_first [OF assms(2), of now chunk "[]"]
    by (simp add: calls upsert_all_next)
  with assms(2) show ?thesis
    by (simp add: calls with_id_fresh) (simp add: with_id_def assistant_message_def)
qed

theorem single_assistant_message_witness:
  "example_calls \<noteq> []
   \<and> msg_id user_message \<noteq> js ''1700000000001''
   \<and> messages (upsert_all (js ''1700000000001'') example_calls
        \<lparr>assistantSoFar = [], messages = [user_message]\<rparr>) =
       [user_message] @ [assistant_message (js ''1700000000001'') (fst (hd example_calls))
                           (concat (map snd example_calls))]
   \<and> with_id (js ''1700000000001'')
        (messages (upsert_all (js ''1700000000001'') example_calls
          \<lparr>assistantSoFar = [], messages = [user_message]\<rparr>)) =
       [assistant_message (js ''1700000000001'') (fst (hd example_calls))
          (concat (map snd example_calls))]
   \<and> msg_content (assistant_message (js ''1700000000001'') (fst (hd example_calls))
          (concat (map snd example_calls))) = js ''Hello''"
proof -
  have a: "example_calls \<noteq> []" by code_simp
  have b: "\<forall>m\<in>set [user_message]. msg_id m \<noteq> js ''1700000000001''" by code_simp
  have c: "cleanContent (extractQuickReplies (concat (map snd example_calls))) = js ''Hello''"
    by code_simp
  have d: "msg_id user_message \<noteq> js ''1700000000001''" by code_simp
  from single_assistant_message [OF a b] a c d show ?thesis by metis
qed

section \<open>Framing loses and doubles nothing\<close>

















text \<open>
  The final flush decodes the records that \<open>flush\<close> gives, in order.
\<close>

lemma final_flush_framing:
  "final_flush env textBuffer st = foldl (\<lambda>s r. flush_record env r s) st (flush textBuffer)"
proof -
  have "flush_lines env raws s =
          foldl (\<lambda>s r. flush_record env r s) s (map strip_cr (filter (\<lambda>raw. raw \<noteq> []) raws))"
    for raws s
    by (induction raws arbitrary: s) auto
  then show ?thesis by (simp add: final_flush_def flush_def)
qed















end
